theory Spec2Isabelle
  imports Main "HOL-Library.Word" "HOL-Library.Multiset"
begin

unbundle bit_operations_syntax

section \<open>JavaScript strings\<close>

text \<open>
  A JavaScript string is a sequence of UTF-16 code units. The model uses \<^typ>\<open>string\<close>:
  a \<^typ>\<open>char\<close> stands for the code unit with the same number, so the strings covered
  are those whose code units are below 256 (ASCII and Latin-1). In that range the white
  space of \<open>String.prototype.trim\<close> and of the regular expression class \<open>\s\<close> is
  TAB, LF, VT, FF, CR, SPACE and NBSP; the characters that \<open>.\<close> does not match are LF and CR;
  and \<open>toLowerCase\<close> maps \<open>A-Z\<close> and the capital letters \<open>U+00C0 .. U+00DE\<close>
  (without the multiplication sign \<open>U+00D7\<close>) to their small letters, 32 code units above.
\<close>

definition isSpace :: "char \<Rightarrow> bool" where
  "isSpace c \<longleftrightarrow>
     c = CHR 0x09 \<or> c = CHR 0x0A \<or> c = CHR 0x0B \<or> c = CHR 0x0C \<or> c = CHR 0x0D \<or>
     c = CHR 0x20 \<or> c = CHR 0xA0"

definition isLineTerminator :: "char \<Rightarrow> bool" where
  "isLineTerminator c \<longleftrightarrow> c = CHR 0x0A \<or> c = CHR 0x0D"

definition trim :: "string \<Rightarrow> string" where
  "trim s = rev (dropWhile isSpace (rev (dropWhile isSpace s)))"

definition upperChars :: string where
  "upperChars = ''ABCDEFGHIJKLMNOPQRSTUVWXYZ'' @
     [CHR 0xC0, CHR 0xC1, CHR 0xC2, CHR 0xC3, CHR 0xC4, CHR 0xC5, CHR 0xC6, CHR 0xC7,
      CHR 0xC8, CHR 0xC9, CHR 0xCA, CHR 0xCB, CHR 0xCC, CHR 0xCD, CHR 0xCE, CHR 0xCF,
      CHR 0xD0, CHR 0xD1, CHR 0xD2, CHR 0xD3, CHR 0xD4, CHR 0xD5, CHR 0xD6,
      CHR 0xD8, CHR 0xD9, CHR 0xDA, CHR 0xDB, CHR 0xDC, CHR 0xDD, CHR 0xDE]"

definition lowerChars :: string where
  "lowerChars = ''abcdefghijklmnopqrstuvwxyz'' @
     [CHR 0xE0, CHR 0xE1, CHR 0xE2, CHR 0xE3, CHR 0xE4, CHR 0xE5, CHR 0xE6, CHR 0xE7,
      CHR 0xE8, CHR 0xE9, CHR 0xEA, CHR 0xEB, CHR 0xEC, CHR 0xED, CHR 0xEE, CHR 0xEF,
      CHR 0xF0, CHR 0xF1, CHR 0xF2, CHR 0xF3, CHR 0xF4, CHR 0xF5, CHR 0xF6,
      CHR 0xF8, CHR 0xF9, CHR 0xFA, CHR 0xFB, CHR 0xFC, CHR 0xFD, CHR 0xFE]"

definition lowerChar :: "char \<Rightarrow> char" where
  "lowerChar c = (case map_of (zip upperChars lowerChars) c of None \<Rightarrow> c | Some l \<Rightarrow> l)"

definition toLowerCase :: "string \<Rightarrow> string" where
  "toLowerCase s = map lowerChar s"

text \<open>\<open>x || ''\<close> for a string-valued property that may be absent.\<close>

definition orEmpty :: "string option \<Rightarrow> string" where
  "orEmpty x = (case x of None \<Rightarrow> [] | Some s \<Rightarrow> s)"

text \<open>The truthiness of an optional string: \<open>undefined\<close>, \<open>null\<close> and \<open>''\<close> are falsy.\<close>

definition truthy :: "string option \<Rightarrow> bool" where
  "truthy x = (case x of None \<Rightarrow> False | Some s \<Rightarrow> s \<noteq> [])"

text \<open>Decimal rendering of a number, as \<open>Number.prototype.toString\<close> and template
  literals do for integers.\<close>

definition digitChar :: "nat \<Rightarrow> char" where
  "digitChar d = ''0123456789'' ! d"

function natToString :: "nat \<Rightarrow> string" where
  "natToString n = (if n < 10 then [digitChar n] else natToString (n div 10) @ [digitChar (n mod 10)])"
  by pat_completeness auto
termination
  by (relation "measure id") auto

declare natToString.simps [simp del]

definition intToString :: "int \<Rightarrow> string" where
  "intToString i = (if i < 0 then CHR ''-'' # natToString (nat (- i)) else natToString (nat i))"

section \<open>Source events and the stable UID\<close>

text \<open>
  A hockey event as \<open>parseEventBlock\<close> returns it. It returns only events whose
  \<open>title\<close> and \<open>startTime\<close> are truthy, so these two fields are always present;
  \<open>endTime\<close>, \<open>location\<close> and \<open>description\<close> may be absent. A \<open>Date\<close> is its
  epoch value in milliseconds (\<open>getTime()\<close>).
\<close>

record hockeyEvent =
  title :: string
  startTime :: int
  endTime :: "int option"
  location :: "string option"
  description :: "string option"
  uid :: string

text \<open>
  The hash of \<open>createStableUID\<close>: \<open>hash = ((hash << 5) - hash) + char; hash = hash & hash\<close>.
  The bitwise operators work on 32-bit integers, so the value after each round is the
  two's complement 32-bit word of \<open>31 * hash + char\<close>.
\<close>

definition hashStep :: "32 word \<Rightarrow> char \<Rightarrow> 32 word" where
  "hashStep hash c = (push_bit 5 hash - hash) + of_nat (of_char c)"

definition hashString :: "string \<Rightarrow> 32 word" where
  "hashString s = foldl hashStep 0 s"

definition stableString :: "hockeyEvent \<Rightarrow> string" where
  "stableString event =
     trim (title event) @ ''|'' @ intToString (startTime event) @ ''|'' @ trim (orEmpty (location event))"

definition createStableUID :: "hockeyEvent \<Rightarrow> string" where
  "createStableUID event =
     (let positiveHash = nat \<bar>sint (hashString (stableString event))\<bar>
      in ''benchapp-stable-'' @ natToString positiveHash)"

section \<open>Regular expressions and string search\<close>

text \<open>\<open>s.startsWith(p)\<close> and \<open>s.includes(p)\<close>.\<close>

definition startsWith :: "string \<Rightarrow> string \<Rightarrow> bool" where
  "startsWith s p \<longleftrightarrow> take (length p) s = p"

fun includesStr :: "string \<Rightarrow> string \<Rightarrow> bool" where
  "includesStr [] p = startsWith [] p"
| "includesStr (c # cs) p = (startsWith (c # cs) p \<or> includesStr cs p)"

text \<open>\<open>s.replace(p, '')\<close> for a string pattern: the first occurrence of \<open>p\<close> is removed.\<close>

fun replaceFirst :: "string \<Rightarrow> string \<Rightarrow> string" where
  "replaceFirst p [] = []"
| "replaceFirst p (c # cs) =
     (if startsWith (c # cs) p then drop (length p) (c # cs) else c # replaceFirst p cs)"

text \<open>
  An unanchored regular expression is tried at every position from the left; the first
  position where it matches wins. \<open>regexSearch m s\<close> takes the matcher \<open>m\<close> of the
  expression anchored at the start of its argument and returns the text before the match
  together with what \<open>m\<close> returns.
\<close>

fun regexSearch :: "(string \<Rightarrow> 'a option) \<Rightarrow> string \<Rightarrow> (string \<times> 'a) option" where
  "regexSearch m [] = (case m [] of None \<Rightarrow> None | Some r \<Rightarrow> Some ([], r))"
| "regexSearch m (c # cs) =
     (case m (c # cs) of
        Some r \<Rightarrow> Some ([], r)
      | None \<Rightarrow> (case regexSearch m cs of None \<Rightarrow> None | Some (before, r) \<Rightarrow> Some (c # before, r)))"

text \<open>\<open>([class]+)\<close> at the end of an expression: the longest non-empty run of characters of
  the class.\<close>

definition plusClass :: "(char \<Rightarrow> bool) \<Rightarrow> string \<Rightarrow> string option" where
  "plusClass P r = (let c = takeWhile P r in if c = [] then None else Some c)"

text \<open>\<open>\s*([class]+)\<close>: the greedy \<open>\s*\<close> first takes all the white space there is, \<open>k\<close>
  characters, and gives it back one character at a time while the class fails to match.\<close>

fun spacesThenClass :: "(char \<Rightarrow> bool) \<Rightarrow> string \<Rightarrow> nat \<Rightarrow> string option" where
  "spacesThenClass P r 0 = plusClass P r"
| "spacesThenClass P r (Suc k) =
     (case plusClass P (drop (Suc k) r) of Some c \<Rightarrow> Some c | None \<Rightarrow> spacesThenClass P r k)"

definition uidMarker :: string where
  "uidMarker = ''Hockey-UID:''"

definition newline :: char where
  "newline = CHR 0x0A"

text \<open>\<open>/Hockey-UID:\s*([^\n\r\s]+)/\<close> anchored at the start of \<open>s\<close>; the result is the group.\<close>

definition matchUID :: "string \<Rightarrow> string option" where
  "matchUID s =
     (if startsWith s uidMarker
      then (let r = drop (length uidMarker) s
            in spacesThenClass (\<lambda>c. \<not> isSpace c) r (length (takeWhile isSpace r)))
      else None)"

text \<open>\<open>/Hockey-UID:\s*([^\n\r]+)/\<close> anchored at the start of \<open>s\<close>.\<close>

definition matchLegacyUID :: "string \<Rightarrow> string option" where
  "matchLegacyUID s =
     (if startsWith s uidMarker
      then (let r = drop (length uidMarker) s
            in spacesThenClass (\<lambda>c. \<not> isLineTerminator c) r (length (takeWhile isSpace r)))
      else None)"

text \<open>\<open>/^Hockey-UID:.*$/\<close> and \<open>/\n\nHockey-UID:.*$/\<close> anchored at the start of \<open>s\<close>: without the
  \<open>m\<close> flag \<open>$\<close> is the end of the string, and \<open>.\<close> matches no line terminator.\<close>

definition matchMarkerToEnd :: "string \<Rightarrow> string \<Rightarrow> unit option" where
  "matchMarkerToEnd marker s =
     (if startsWith s marker \<and> list_all (\<lambda>c. \<not> isLineTerminator c) (drop (length marker) s)
      then Some () else None)"

text \<open>\<open>s.replace(/\n\nHockey-UID:.*$/, '')\<close>: the match runs to the end of the string, so
  what is left is the text before it.\<close>

definition replaceTrailingMarker :: "string \<Rightarrow> string" where
  "replaceTrailingMarker s =
     (case regexSearch (matchMarkerToEnd ([newline, newline] @ uidMarker)) s of
        None \<Rightarrow> s | Some (before, _) \<Rightarrow> before)"

text \<open>\<open>s.replace(/^Hockey-UID:.*$/, '')\<close>.\<close>

definition replaceLeadingMarker :: "string \<Rightarrow> string" where
  "replaceLeadingMarker s = (case matchMarkerToEnd uidMarker s of None \<Rightarrow> s | Some _ \<Rightarrow> [])"

section \<open>Calendar events\<close>

text \<open>An event of the family calendar, read through its getters. \<open>CalendarApp\<close> returns
  strings for title, location and description and \<open>Date\<close>s for the times.\<close>

record calendarEvent =
  getTitle :: string
  getStartTime :: int
  getEndTime :: int
  getLocation :: string
  getDescription :: string

definition EVENT_PREFIX :: string where
  "EVENT_PREFIX = ''[Hockey] ''"

text \<open>\<open>hockeyEvent.endTime || new Date(hockeyEvent.startTime.getTime() + 2 * 60 * 60 * 1000)\<close>\<close>

definition endTimeOrDefault :: "hockeyEvent \<Rightarrow> int" where
  "endTimeOrDefault hockeyEvent =
     (case endTime hockeyEvent of Some t \<Rightarrow> t | None \<Rightarrow> startTime hockeyEvent + 2 * 60 * 60 * 1000)"

text \<open>The description that \<open>createEvent\<close> and \<open>updateEvent\<close> store.\<close>

definition storedDescription :: "hockeyEvent \<Rightarrow> string" where
  "storedDescription hockeyEvent =
     trim (orEmpty (description hockeyEvent)) @
     (if truthy (description hockeyEvent) then [newline, newline] else []) @
     ''Hockey-UID: '' @ uid hockeyEvent"

text \<open>\<open>createEvent\<close>: the event that \<open>calendar.createEvent\<close> is asked to add.\<close>

definition createEvent :: "hockeyEvent \<Rightarrow> calendarEvent" where
  "createEvent hockeyEvent =
     \<lparr>getTitle = EVENT_PREFIX @ title hockeyEvent,
      getStartTime = startTime hockeyEvent,
      getEndTime = endTimeOrDefault hockeyEvent,
      getLocation = orEmpty (location hockeyEvent),
      getDescription = storedDescription hockeyEvent\<rparr>"

text \<open>\<open>updateEvent\<close>: the existing event after \<open>setTitle\<close>, \<open>setTime\<close>, \<open>setDescription\<close>
  and \<open>setLocation\<close>.\<close>

definition updateEvent :: "calendarEvent \<Rightarrow> hockeyEvent \<Rightarrow> calendarEvent" where
  "updateEvent existingEvent hockeyEvent =
     existingEvent
       \<lparr>getTitle := EVENT_PREFIX @ title hockeyEvent,
        getStartTime := startTime hockeyEvent,
        getEndTime := endTimeOrDefault hockeyEvent,
        getDescription := storedDescription hockeyEvent,
        getLocation := orEmpty (location hockeyEvent)\<rparr>"

section \<open>Extracting the stored UID\<close>

text \<open>\<open>extractUIDFromDescription\<close> of the clean script: \<open>null\<close> is \<open>None\<close>.\<close>

definition extractUIDFromDescription :: "string \<Rightarrow> string option" where
  "extractUIDFromDescription description' =
     (if description' = [] then None
      else (case regexSearch matchUID description' of
              None \<Rightarrow> None
            | Some (_, captured) \<Rightarrow> Some (trim captured)))"

text \<open>\<open>extractUIDFromDescription\<close> of the stable-UID script, which tries a second
  expression for the old random UIDs.\<close>

definition extractUIDFromDescription_stable :: "string \<Rightarrow> string option" where
  "extractUIDFromDescription_stable description' =
     (if description' = [] then None
      else (case regexSearch matchUID description' of
              Some (_, captured) \<Rightarrow> Some (trim captured)
            | None \<Rightarrow>
                (case regexSearch matchLegacyUID description' of
                   Some (_, captured) \<Rightarrow> Some (trim captured)
                 | None \<Rightarrow> None)))"

section \<open>Change detection\<close>

text \<open>\<open>needsUpdate\<close> of the clean script: five minutes of tolerance, locations compared in
  lower case.\<close>

definition needsUpdate :: "calendarEvent \<Rightarrow> hockeyEvent \<Rightarrow> bool" where
  "needsUpdate existingEvent hockeyEvent =
     (let expectedTitle = EVENT_PREFIX @ title hockeyEvent;
          expectedEndTime = endTimeOrDefault hockeyEvent;
          titleChanged = (getTitle existingEvent \<noteq> expectedTitle);
          startTimeDiff = \<bar>getStartTime existingEvent - startTime hockeyEvent\<bar>;
          endTimeDiff = \<bar>getEndTime existingEvent - expectedEndTime\<bar>;
          startChanged = (startTimeDiff > 300000);
          endChanged = (endTimeDiff > 300000);
          existingLocation = trim (toLowerCase (getLocation existingEvent));
          newLocation = trim (toLowerCase (orEmpty (location hockeyEvent)));
          locationChanged = (existingLocation \<noteq> newLocation);
          existingDesc = getDescription existingEvent;
          existingContentDesc = trim (replaceLeadingMarker (replaceTrailingMarker existingDesc));
          newContentDesc = trim (orEmpty (description hockeyEvent));
          descriptionChanged = (existingContentDesc \<noteq> newContentDesc)
      in titleChanged \<or> startChanged \<or> endChanged \<or> locationChanged \<or> descriptionChanged)"

text \<open>\<open>needsUpdate\<close> of the stable-UID script: one minute of tolerance, locations trimmed
  only, and only the trailing marker taken off the description.\<close>

definition needsUpdate_stable :: "calendarEvent \<Rightarrow> hockeyEvent \<Rightarrow> bool" where
  "needsUpdate_stable existingEvent hockeyEvent =
     (let expectedTitle = EVENT_PREFIX @ title hockeyEvent;
          expectedEndTime = endTimeOrDefault hockeyEvent;
          titleChanged = (getTitle existingEvent \<noteq> expectedTitle);
          startTimeDiff = \<bar>getStartTime existingEvent - startTime hockeyEvent\<bar>;
          endTimeDiff = \<bar>getEndTime existingEvent - expectedEndTime\<bar>;
          startChanged = (startTimeDiff > 60000);
          endChanged = (endTimeDiff > 60000);
          locationChanged = (trim (getLocation existingEvent) \<noteq> trim (orEmpty (location hockeyEvent)));
          existingDesc = getDescription existingEvent;
          existingContentDesc = trim (replaceTrailingMarker existingDesc);
          newContentDesc = trim (orEmpty (description hockeyEvent));
          descriptionChanged = (existingContentDesc \<noteq> newContentDesc)
      in titleChanged \<or> startChanged \<or> endChanged \<or> locationChanged \<or> descriptionChanged)"

section \<open>Maps\<close>

text \<open>
  A JavaScript \<open>Map\<close> as the list of its entries in insertion order: \<open>set\<close> on a key that
  is present replaces the value in place, \<open>set\<close> on a new key appends the entry.
\<close>

type_synonym ('k, 'v) jsMap = "('k \<times> 'v) list"

fun mapSet :: "('k, 'v) jsMap \<Rightarrow> 'k \<Rightarrow> 'v \<Rightarrow> ('k, 'v) jsMap" where
  "mapSet [] k v = [(k, v)]"
| "mapSet ((k', v') # m) k v = (if k' = k then (k, v) # m else (k', v') # mapSet m k v)"

definition mapGet :: "('k, 'v) jsMap \<Rightarrow> 'k \<Rightarrow> 'v option" where
  "mapGet m k = map_of m k"

definition mapHas :: "('k, 'v) jsMap \<Rightarrow> 'k \<Rightarrow> bool" where
  "mapHas m k \<longleftrightarrow> map_of m k \<noteq> None"

definition mapValues :: "('k, 'v) jsMap \<Rightarrow> 'v list" where
  "mapValues m = map snd m"

section \<open>Reconciliation\<close>

text \<open>
  What a run asks of the calendar: \<open>createEvent\<close> for a hockey event, \<open>updateEvent\<close> of an
  existing event with a hockey event, \<open>deleteEvent\<close> of an existing event. An existing
  event is named by its position in \<open>existingEvents\<close>.
\<close>

datatype request = Create hockeyEvent | Update nat hockeyEvent | Delete nat

text \<open>
  The state of a run: the counters of \<open>results\<close> (the clean script has no \<open>migrated\<close>
  counter and leaves it at 0), the existing events as the calendar holds them now
  (\<open>updateEvent\<close> changes them in place, and later reads see the change), and the
  requests made so far, in order.
\<close>

record run =
  added :: nat
  updated :: nat
  removed :: nat
  unchanged :: nat
  migrated :: nat
  events :: "calendarEvent list"
  requests :: "request list"

definition startRun :: "calendarEvent list \<Rightarrow> run" where
  "startRun existingEvents =
     \<lparr>added = 0, updated = 0, removed = 0, unchanged = 0, migrated = 0,
      events = existingEvents, requests = []\<rparr>"

text \<open>The calendar's hockey events after the run, in whatever order the calendar lists
  them: the existing events that were not deleted, as updated, and the created ones.\<close>

definition createdEvents :: "request list \<Rightarrow> calendarEvent list" where
  "createdEvents rs = concat (map (\<lambda>r. case r of Create h \<Rightarrow> [createEvent h] | _ \<Rightarrow> []) rs)"

definition calendarAfter :: "run \<Rightarrow> calendarEvent multiset" where
  "calendarAfter r =
     mset (map (\<lambda>i. events r ! i)
             (filter (\<lambda>i. Delete i \<notin> set (requests r)) [0..<length (events r)]))
     + mset (createdEvents (requests r))"

text \<open>\<open>hockeyEvents.forEach(event => hockeyEventMap.set(event.uid, event))\<close>\<close>

definition hockeyEventMap :: "hockeyEvent list \<Rightarrow> (string, hockeyEvent) jsMap" where
  "hockeyEventMap hockeyEvents = foldl (\<lambda>m event. mapSet m (uid event) event) [] hockeyEvents"

subsection \<open>The clean script: \<open>processEvents\<close>\<close>

definition existingEventMap :: "calendarEvent list \<Rightarrow> (string, nat) jsMap" where
  "existingEventMap existingEvents =
     foldl (\<lambda>m (i, event).
              (case extractUIDFromDescription (getDescription event) of
                 None \<Rightarrow> m
               | Some u \<Rightarrow> if u \<noteq> [] then mapSet m u i else m))
       [] (zip [0..<length existingEvents] existingEvents)"

text \<open>The body of the loop over the hockey events.\<close>

definition addOrUpdate :: "(string, nat) jsMap \<Rightarrow> run \<Rightarrow> hockeyEvent \<Rightarrow> run" where
  "addOrUpdate existingMap r hockeyEvent =
     (case mapGet existingMap (uid hockeyEvent) of
        Some j \<Rightarrow>
          if needsUpdate (events r ! j) hockeyEvent
          then r\<lparr>events := (events r)[j := updateEvent (events r ! j) hockeyEvent],
                 updated := updated r + 1,
                 requests := requests r @ [Update j hockeyEvent]\<rparr>
          else r\<lparr>unchanged := unchanged r + 1\<rparr>
      | None \<Rightarrow>
          r\<lparr>added := added r + 1, requests := requests r @ [Create hockeyEvent]\<rparr>)"

text \<open>The body of the loop over the existing events.\<close>

definition removeMissing :: "(string, hockeyEvent) jsMap \<Rightarrow> run \<Rightarrow> nat \<Rightarrow> run" where
  "removeMissing hockeyMap r i =
     (case extractUIDFromDescription (getDescription (events r ! i)) of
        None \<Rightarrow> r
      | Some u \<Rightarrow>
          if u \<noteq> [] \<and> \<not> mapHas hockeyMap u
          then r\<lparr>removed := removed r + 1, requests := requests r @ [Delete i]\<rparr>
          else r)"

definition processEvents :: "hockeyEvent list \<Rightarrow> calendarEvent list \<Rightarrow> run" where
  "processEvents hockeyEvents existingEvents =
     (let hockeyMap = hockeyEventMap hockeyEvents;
          existingMap = existingEventMap existingEvents;
          r = foldl (addOrUpdate existingMap) (startRun existingEvents) hockeyEvents
      in foldl (removeMissing hockeyMap) r [0..<length existingEvents])"

subsection \<open>The stable-UID script: \<open>processEventsWithStableUIDs\<close>\<close>

text \<open>The content key of an existing event and of a hockey event.\<close>

definition existingContentKey :: "calendarEvent \<Rightarrow> string" where
  "existingContentKey event =
     replaceFirst EVENT_PREFIX (getTitle event) @ ''|'' @ intToString (getStartTime event)
       @ ''|'' @ getLocation event"

definition hockeyContentKey :: "hockeyEvent \<Rightarrow> string" where
  "hockeyContentKey hockeyEvent =
     title hockeyEvent @ ''|'' @ intToString (startTime hockeyEvent)
       @ ''|'' @ orEmpty (location hockeyEvent)"

definition existingEventMap_stable :: "calendarEvent list \<Rightarrow> (string, nat) jsMap" where
  "existingEventMap_stable existingEvents =
     foldl (\<lambda>m (i, event).
              (case extractUIDFromDescription_stable (getDescription event) of
                 None \<Rightarrow> m
               | Some storedUID \<Rightarrow> if storedUID \<noteq> [] then mapSet m storedUID i else m))
       [] (zip [0..<length existingEvents] existingEvents)"

definition existingByContent :: "calendarEvent list \<Rightarrow> (string, nat) jsMap" where
  "existingByContent existingEvents =
     foldl (\<lambda>m (i, event). mapSet m (existingContentKey event) i)
       [] (zip [0..<length existingEvents] existingEvents)"

text \<open>The body of the loop over the hockey events: the match by UID first, then the
  match by content, which is a migration.\<close>

definition addUpdateOrMigrate ::
    "(string, nat) jsMap \<Rightarrow> (string, nat) jsMap \<Rightarrow> run \<Rightarrow> hockeyEvent \<Rightarrow> run" where
  "addUpdateOrMigrate existingMap byContent r hockeyEvent =
     (case mapGet existingMap (uid hockeyEvent) of
        Some j \<Rightarrow>
          if needsUpdate_stable (events r ! j) hockeyEvent
          then r\<lparr>events := (events r)[j := updateEvent (events r ! j) hockeyEvent],
                 updated := updated r + 1,
                 requests := requests r @ [Update j hockeyEvent]\<rparr>
          else r\<lparr>unchanged := unchanged r + 1\<rparr>
      | None \<Rightarrow>
          (case mapGet byContent (hockeyContentKey hockeyEvent) of
             Some j \<Rightarrow>
               r\<lparr>events := (events r)[j := updateEvent (events r ! j) hockeyEvent],
                 migrated := migrated r + 1,
                 requests := requests r @ [Update j hockeyEvent]\<rparr>
           | None \<Rightarrow>
               r\<lparr>added := added r + 1, requests := requests r @ [Create hockeyEvent]\<rparr>))"

text \<open>The body of the loop over the existing events.\<close>

definition existsByUID :: "(string, hockeyEvent) jsMap \<Rightarrow> calendarEvent \<Rightarrow> bool" where
  "existsByUID hockeyMap existingEvent =
     (case extractUIDFromDescription_stable (getDescription existingEvent) of
        None \<Rightarrow> False
      | Some storedUID \<Rightarrow> storedUID \<noteq> [] \<and> mapHas hockeyMap storedUID)"

definition existsByContent :: "(string, hockeyEvent) jsMap \<Rightarrow> calendarEvent \<Rightarrow> bool" where
  "existsByContent hockeyMap existingEvent =
     list_ex (\<lambda>hockeyEvent. hockeyContentKey hockeyEvent = existingContentKey existingEvent)
       (mapValues hockeyMap)"

definition removeUnmatched :: "(string, hockeyEvent) jsMap \<Rightarrow> run \<Rightarrow> nat \<Rightarrow> run" where
  "removeUnmatched hockeyMap r i =
     (if \<not> existsByUID hockeyMap (events r ! i) \<and> \<not> existsByContent hockeyMap (events r ! i)
      then r\<lparr>removed := removed r + 1, requests := requests r @ [Delete i]\<rparr>
      else r)"

definition processEventsWithStableUIDs :: "hockeyEvent list \<Rightarrow> calendarEvent list \<Rightarrow> run" where
  "processEventsWithStableUIDs hockeyEvents existingEvents =
     (let hockeyMap = hockeyEventMap hockeyEvents;
          existingMap = existingEventMap_stable existingEvents;
          byContent = existingByContent existingEvents;
          r = foldl (addUpdateOrMigrate existingMap byContent) (startRun existingEvents) hockeyEvents
      in foldl (removeUnmatched hockeyMap) r [0..<length existingEvents])"

section \<open>The sync run\<close>

text \<open>\<open>UrlFetchApp.fetch\<close> either throws or returns a response, whose text is parsed. The
  parser of the ICS text is a parameter.\<close>

datatype fetchOutcome = FetchThrows | Response string

definition fetchHockeyEvents :: "(string \<Rightarrow> hockeyEvent list) \<Rightarrow> fetchOutcome \<Rightarrow> hockeyEvent list" where
  "fetchHockeyEvents parseICSData outcome =
     (case outcome of
        Response icsData \<Rightarrow> parseICSData icsData
      | FetchThrows \<Rightarrow> [])"

text \<open>\<open>getExistingHockeyEvents\<close>, applied to the events that \<open>calendar.getEvents\<close> returns
  for the window.\<close>

definition getExistingHockeyEvents :: "calendarEvent list \<Rightarrow> calendarEvent list" where
  "getExistingHockeyEvents calendarEvents =
     filter (\<lambda>event. startsWith (getTitle event) EVENT_PREFIX \<and>
                      getDescription event \<noteq> [] \<and>
                      includesStr (getDescription event) uidMarker)
       calendarEvents"

datatype syncError = CalendarNotFound

text \<open>\<open>syncHockeyCalendar\<close> of the clean script. The family calendar is \<open>None\<close> when
  \<open>getCalendarById\<close> finds none; the error thrown then is thrown again by the handler.\<close>

definition syncHockeyCalendar ::
    "(string \<Rightarrow> hockeyEvent list) \<Rightarrow> fetchOutcome \<Rightarrow> calendarEvent list option \<Rightarrow> syncError + run" where
  "syncHockeyCalendar parseICSData outcome familyCalendar =
     (case familyCalendar of
        None \<Rightarrow> Inl CalendarNotFound
      | Some calendarEvents \<Rightarrow>
          (let hockeyEvents = fetchHockeyEvents parseICSData outcome;
               existingEvents = getExistingHockeyEvents calendarEvents
           in Inr (processEvents hockeyEvents existingEvents)))"

section \<open>Notions used to state the properties\<close>

text \<open>The UID that \<open>processEvents\<close> reads from an existing event: the extracted UID when it
  is truthy.\<close>

definition storedUID :: "calendarEvent \<Rightarrow> string option" where
  "storedUID event =
     (case extractUIDFromDescription (getDescription event) of
        None \<Rightarrow> None
      | Some u \<Rightarrow> if u \<noteq> [] then Some u else None)"

text \<open>The test of the removal loop of \<open>processEvents\<close>.\<close>

definition removable :: "(string, hockeyEvent) jsMap \<Rightarrow> calendarEvent \<Rightarrow> bool" where
  "removable hockeyMap event =
     (case storedUID event of None \<Rightarrow> False | Some u \<Rightarrow> \<not> mapHas hockeyMap u)"



definition agreeOutsideLocation :: "calendarEvent \<Rightarrow> hockeyEvent \<Rightarrow> bool" where
  "agreeOutsideLocation existingEvent hockeyEvent \<longleftrightarrow>
     getTitle existingEvent = EVENT_PREFIX @ title hockeyEvent \<and>
     \<bar>getStartTime existingEvent - startTime hockeyEvent\<bar> \<le> 300000 \<and>
     \<bar>getEndTime existingEvent - endTimeOrDefault hockeyEvent\<bar> \<le> 300000 \<and>
     trim (replaceLeadingMarker (replaceTrailingMarker (getDescription existingEvent)))
       = trim (orEmpty (description hockeyEvent))"

definition agreeOutsideLocation_stable :: "calendarEvent \<Rightarrow> hockeyEvent \<Rightarrow> bool" where
  "agreeOutsideLocation_stable existingEvent hockeyEvent \<longleftrightarrow>
     getTitle existingEvent = EVENT_PREFIX @ title hockeyEvent \<and>
     \<bar>getStartTime existingEvent - startTime hockeyEvent\<bar> \<le> 60000 \<and>
     \<bar>getEndTime existingEvent - endTimeOrDefault hockeyEvent\<bar> \<le> 60000 \<and>
     trim (replaceTrailingMarker (getDescription existingEvent))
       = trim (orEmpty (description hockeyEvent))"

text \<open>The UID that \<open>processEventsWithStableUIDs\<close> reads from an existing event.\<close>

definition storedUID_stable :: "calendarEvent \<Rightarrow> string option" where
  "storedUID_stable event =
     (case extractUIDFromDescription_stable (getDescription event) of
        None \<Rightarrow> None
      | Some u \<Rightarrow> if u \<noteq> [] then Some u else None)"

text \<open>The test of the removal loop of \<open>processEventsWithStableUIDs\<close>.\<close>

definition unmatched :: "(string, hockeyEvent) jsMap \<Rightarrow> calendarEvent \<Rightarrow> bool" where
  "unmatched hockeyMap event \<longleftrightarrow>
     \<not> existsByUID hockeyMap event \<and> \<not> existsByContent hockeyMap event"

section \<open>Example events\<close>

text \<open>A practice as the parser returns it; its \<open>uid\<close> is the stable UID of its title,
  start time and location.\<close>

definition practice :: hockeyEvent where
  "practice =
     \<lparr>title = ''Practice'', startTime = 1700000000000, endTime = None,
      location = Some ''Rink A'', description = None, uid = ''benchapp-stable-255548776''\<rparr>"

text \<open>The same practice with a description and an end time.\<close>

definition practiceWithNotes :: hockeyEvent where
  "practiceWithNotes =
     practice\<lparr>endTime := Some 1700003600000, description := Some ''Bring skates''\<rparr>"



text \<open>The calendar event of the practice with notes, its location in lower case.\<close>

definition practiceLowerCase :: calendarEvent where
  "practiceLowerCase = (createEvent practiceWithNotes)\<lparr>getLocation := ''rink a''\<rparr>"

text \<open>A calendar event that \<open>getExistingHockeyEvents\<close> keeps and that stores no UID.\<close>

definition unmarkedEvent :: calendarEvent where
  "unmarkedEvent =
     \<lparr>getTitle = ''[Hockey] Team dinner'', getStartTime = 1700000000000,
      getEndTime = 1700007200000, getLocation = ''Clubhouse'',
      getDescription = ''Added by hand. Hockey-UID:''\<rparr>"

text \<open>The practice with notes that contain \<open>Hockey-UID:\<close>; title, start time and location
  are those of the practice, so the stable UID is the same.\<close>

definition practiceMarkedNotes :: hockeyEvent where
  "practiceMarkedNotes =
     practiceWithNotes\<lparr>description := Some ''Old Hockey-UID: 8841@benchapp.com''\<rparr>"

text \<open>Two games as the parser returns them, with the same start time and location: the titles
  differ, and the stable UIDs are equal.\<close>

definition gameAa :: hockeyEvent where
  "gameAa =
     \<lparr>title = ''Game Aa'', startTime = 1700000000000, endTime = None,
      location = Some ''Rink A'', description = Some ''Bring skates'',
      uid = ''benchapp-stable-900821397''\<rparr>"

definition gameBB :: hockeyEvent where
  "gameBB = gameAa\<lparr>title := ''Game BB''\<rparr>"

text \<open>Game Aa with notes that contain \<open>Hockey-UID:\<close>.\<close>

definition gameAaMarkedNotes :: hockeyEvent where
  "gameAaMarkedNotes = gameAa\<lparr>description := Some ''Old Hockey-UID: 8841@benchapp.com''\<rparr>"

text \<open>The calendar event of Game Aa as an earlier version of the script stored it, under
  the UID of the feed.\<close>

definition legacyGameAa :: calendarEvent where
  "legacyGameAa =
     (createEvent gameAa)
       \<lparr>getDescription := ''Bring skates'' @ [newline, newline] @ ''Hockey-UID: 8841@benchapp.com''\<rparr>"

section \<open>Evaluation\<close>

lemmas string_eval =
  trim_def isSpace_def isLineTerminator_def orEmpty_def truthy_def newline_def uidMarker_def
  startsWith_def plusClass_def EVENT_PREFIX_def

lemmas event_eval =
  createEvent_def storedDescription_def endTimeOrDefault_def
  replaceTrailingMarker_def replaceLeadingMarker_def matchMarkerToEnd_def
  extractUIDFromDescription_def matchUID_def

lemmas lower_eval = toLowerCase_def lowerChar_def upperChars_def lowerChars_def

lemmas uid_eval =
  createStableUID_def stableString_def intToString_def natToString.simps digitChar_def
  hashString_def hashStep_def

lemmas stable_eval =
  extractUIDFromDescription_stable_def matchLegacyUID_def storedUID_stable_def
  existingContentKey_def hockeyContentKey_def intToString_def natToString.simps digitChar_def

section \<open>Strings\<close>

subsection \<open>trim\<close>

lemma trim_unchanged:
  assumes "s = [] \<or> (\<not> isSpace (hd s) \<and> \<not> isSpace (last s))"
  shows "trim s = s"
proof (cases "s = []")
  case True
  then show ?thesis by (simp add: trim_def)
next
  case False
  with assms have h: "\<not> isSpace (hd s)" and l: "\<not> isSpace (last s)" by auto
  from False h have a: "dropWhile isSpace s = s" by (cases s) simp_all
  from False l have b: "dropWhile isSpace (rev s) = rev s"
    by (cases "rev s") (simp_all add: last_rev [symmetric] hd_rev)
  show ?thesis by (simp add: trim_def a b)
qed

lemma trim_no_space: "\<forall>c\<in>set s. \<not> isSpace c \<Longrightarrow> trim s = s"
  by (rule trim_unchanged) (cases s, auto)

lemma trim_decompose: "\<exists>a b. s = a @ trim s @ b"
proof -
  let ?a = "dropWhile isSpace s"
  have "rev ?a = takeWhile isSpace (rev ?a) @ dropWhile isSpace (rev ?a)" by simp
  then have "?a = trim s @ rev (takeWhile isSpace (rev ?a))"
    unfolding trim_def by (metis rev_append rev_rev_ident)
  moreover have "s = takeWhile isSpace s @ ?a" by simp
  ultimately have "s = takeWhile isSpace s @ trim s @ rev (takeWhile isSpace (rev ?a))"
    by simp
  then show ?thesis by blast
qed

subsection \<open>Substrings\<close>

lemma startsWith_append: "startsWith s p \<Longrightarrow> startsWith (s @ b) p"
proof -
  assume a: "startsWith s p"
  then have "length (take (length p) s) = length p" by (simp add: startsWith_def)
  then have "length p \<le> length s" by simp
  with a show ?thesis by (simp add: startsWith_def)
qed

lemma includesStr_iff: "includesStr s p \<longleftrightarrow> (\<exists>k\<le>length s. startsWith (drop k s) p)"
proof (induction s)
  case Nil
  then show ?case by simp
next
  case (Cons c cs)
  show ?case
  proof
    assume "includesStr (c # cs) p"
    then consider "startsWith (c # cs) p" | "includesStr cs p" by auto
    then show "\<exists>k\<le>length (c # cs). startsWith (drop k (c # cs)) p"
    proof cases
      case 1
      then have "startsWith (drop 0 (c # cs)) p" by simp
      then show ?thesis by blast
    next
      case 2
      with Cons obtain k where "k \<le> length cs" "startsWith (drop k cs) p" by auto
      then have "Suc k \<le> length (c # cs) \<and> startsWith (drop (Suc k) (c # cs)) p" by simp
      then show ?thesis by blast
    qed
  next
    assume "\<exists>k\<le>length (c # cs). startsWith (drop k (c # cs)) p"
    then obtain k where k: "k \<le> length (c # cs)" "startsWith (drop k (c # cs)) p" by auto
    show "includesStr (c # cs) p"
    proof (cases k)
      case 0
      with k show ?thesis by simp
    next
      case (Suc k')
      with k have "k' \<le> length cs \<and> startsWith (drop k' cs) p" by simp
      with Cons show ?thesis by auto
    qed
  qed
qed

lemma includesStr_prepend: "includesStr s p \<Longrightarrow> includesStr (a @ s) p"
  by (induction a) simp_all

lemma includesStr_empty: "includesStr s []"
  by (cases s) (simp_all add: startsWith_def)

lemma includesStr_append: "includesStr s p \<Longrightarrow> includesStr (s @ b) p"
proof (induction s)
  case Nil
  then have "p = []" by (simp add: startsWith_def)
  then show ?case by (simp add: includesStr_empty)
next
  case (Cons c cs)
  from Cons.prems consider "startsWith (c # cs) p" | "includesStr cs p" by auto
  then show ?case
  proof cases
    case 1
    then have "startsWith ((c # cs) @ b) p" by (rule startsWith_append)
    then show ?thesis by simp
  next
    case 2
    with Cons.IH show ?thesis by simp
  qed
qed

lemma includesStr_trim: "includesStr (trim s) p \<Longrightarrow> includesStr s p"
proof -
  assume a: "includesStr (trim s) p"
  obtain x y where s: "s = x @ trim s @ y" using trim_decompose by blast
  from a have "includesStr (x @ trim s @ y) p"
    by (intro includesStr_prepend includesStr_append)
  with s show ?thesis by simp
qed

text \<open>A pattern that contains no \<open>c\<close> cannot begin before a \<open>c\<close> and end after it.\<close>

lemma startsWith_no_straddle:
  assumes "c \<notin> set p" and "startsWith (a @ c # b) p"
  shows "startsWith a p"
proof -
  have "length p \<le> length a"
  proof (rule ccontr)
    assume "\<not> length p \<le> length a"
    then have l: "length a < length p" by simp
    from assms(2) have "take (length p) (a @ c # b) = p" by (simp add: startsWith_def)
    then have "p ! length a = (take (length p) (a @ c # b)) ! length a" by simp
    also have "\<dots> = (a @ c # b) ! length a" using l by (rule nth_take)
    also have "\<dots> = c" by simp
    finally have "c \<in> set p" using l by (metis nth_mem)
    with assms(1) show False by simp
  qed
  with assms(2) show ?thesis by (simp add: startsWith_def)
qed

subsection \<open>Searching\<close>

lemma regexSearch_here: "m s = Some x \<Longrightarrow> regexSearch m s = Some ([], x)"
  by (cases s) simp_all

lemma regexSearch_found:
  assumes "\<And>k. k < length p \<Longrightarrow> m (drop k p @ r) = None" and "m r = Some x"
  shows "regexSearch m (p @ r) = Some (p, x)"
  using assms(1)
proof (induction p)
  case Nil
  from assms(2) show ?case by (simp add: regexSearch_here)
next
  case (Cons c cs)
  have "m (drop 0 (c # cs) @ r) = None" by (rule Cons.prems) simp
  then have here: "m (c # cs @ r) = None" by simp
  have "regexSearch m (cs @ r) = Some (cs, x)"
  proof (rule Cons.IH)
    fix k assume "k < length cs"
    then have "m (drop (Suc k) (c # cs) @ r) = None" by (intro Cons.prems) simp
    then show "m (drop k cs @ r) = None" by simp
  qed
  with here show ?case by simp
qed

subsection \<open>The marker after a text without marker\<close>

lemma newline_not_in_marker: "newline \<notin> set uidMarker"
  by (simp add: newline_def uidMarker_def)

text \<open>In \<open>d\<close>, two newlines and the rest, with no marker in \<open>d\<close>, no marker begins before
  the rest.\<close>

lemma no_marker_before:
  assumes "\<not> includesStr d uidMarker" and "k < length (d @ [newline, newline])"
  shows "\<not> startsWith (drop k (d @ [newline, newline]) @ r) uidMarker"
proof
  assume a: "startsWith (drop k (d @ [newline, newline]) @ r) uidMarker"
  show False
  proof (cases "k \<le> length d")
    case True
    then have eq: "drop k (d @ [newline, newline]) @ r = drop k d @ newline # (newline # r)" by simp
    from a have "startsWith (drop k d @ newline # (newline # r)) uidMarker" by (simp only: eq)
    then have "startsWith (drop k d) uidMarker"
      by (rule startsWith_no_straddle [OF newline_not_in_marker])
    with True have "includesStr d uidMarker" by (auto simp: includesStr_iff)
    with assms(1) show False by simp
  next
    case False
    with assms(2) have "k = Suc (length d)" by simp
    then have eq: "drop k (d @ [newline, newline]) @ r = [] @ newline # r" by simp
    from a have "startsWith ([] @ newline # r) uidMarker" by (simp only: eq)
    then have "startsWith [] uidMarker"
      by (rule startsWith_no_straddle [OF newline_not_in_marker])
    then show False by (simp add: startsWith_def uidMarker_def)
  qed
qed

subsection \<open>Extracting what was stored\<close>

lemma matchUID_marker:
  assumes "u \<noteq> []" and "\<forall>c\<in>set u. \<not> isSpace c"
  shows "matchUID (''Hockey-UID: '' @ u) = Some u"
proof -
  from assms obtain c cs where u: "u = c # cs" and c: "\<not> isSpace c" by (cases u) auto
  have d: "drop (length uidMarker) (''Hockey-UID: '' @ u) = CHR '' '' # u"
    by (simp add: uidMarker_def)
  have s: "startsWith (''Hockey-UID: '' @ u) uidMarker"
    by (simp add: startsWith_def uidMarker_def)
  have t: "takeWhile isSpace (CHR '' '' # u) = [CHR '' '']"
    using c by (simp add: u isSpace_def)
  have w: "takeWhile (\<lambda>c. \<not> isSpace c) u = u" using assms(2) by simp
  have sp: "spacesThenClass (\<lambda>c. \<not> isSpace c) (CHR '' '' # u) (length [CHR '' '']) = Some u"
    using assms(1) by (simp add: plusClass_def w)
  show ?thesis unfolding matchUID_def Let_def d t using s sp by simp
qed

lemma matchUID_not_marker: "\<not> startsWith s uidMarker \<Longrightarrow> matchUID s = None"
  by (simp add: matchUID_def)

lemma extract_stored:
  assumes "\<not> includesStr (orEmpty (description h)) uidMarker"
    and "uid h \<noteq> []" and "\<forall>c\<in>set (uid h). \<not> isSpace c"
  shows "extractUIDFromDescription (storedDescription h) = Some (uid h)"
proof -
  let ?r = "''Hockey-UID: '' @ uid h"
  have m: "matchUID ?r = Some (uid h)" using assms(2,3) by (rule matchUID_marker)
  have found: "regexSearch matchUID (storedDescription h) = Some (p, uid h) \<Longrightarrow>
      extractUIDFromDescription (storedDescription h) = Some (uid h)" for p
    using assms(3) by (simp add: extractUIDFromDescription_def storedDescription_def trim_no_space)
  show ?thesis
  proof (cases "truthy (description h)")
    case False
    then have e: "orEmpty (description h) = []"
      by (auto simp: truthy_def orEmpty_def split: option.splits)
    have "storedDescription h = ?r"
      using False by (simp add: storedDescription_def e trim_def)
    with m show ?thesis by (intro found) (simp add: regexSearch_here)
  next
    case True
    let ?d = "trim (orEmpty (description h))"
    have nd: "\<not> includesStr ?d uidMarker"
      using assms(1) includesStr_trim by blast
    have s: "storedDescription h = (?d @ [newline, newline]) @ ?r"
      using True by (simp add: storedDescription_def)
    have "regexSearch matchUID ((?d @ [newline, newline]) @ ?r) = Some (?d @ [newline, newline], uid h)"
    proof (rule regexSearch_found)
      fix k assume "k < length (?d @ [newline, newline])"
      with nd have "\<not> startsWith (drop k (?d @ [newline, newline]) @ ?r) uidMarker"
        by (rule no_marker_before)
      then show "matchUID (drop k (?d @ [newline, newline]) @ ?r) = None"
        by (rule matchUID_not_marker)
    qed (rule m)
    with s show ?thesis by (intro found) simp
  qed
qed

subsection \<open>The stable UID is a word\<close>

lemma digitChar_digit: "d < 10 \<Longrightarrow> digitChar d \<in> set ''0123456789''"
  unfolding digitChar_def by (rule nth_mem) simp

lemma natToString_digits: "set (natToString n) \<subseteq> set ''0123456789''"
proof (induction n rule: natToString.induct)
  case (1 n)
  show ?case
  proof (cases "n < 10")
    case True
    then show ?thesis using digitChar_digit [of n] by (subst natToString.simps) simp
  next
    case False
    have "n mod 10 < 10" by simp
    then have "digitChar (n mod 10) \<in> set ''0123456789''" by (rule digitChar_digit)
    with False 1 show ?thesis by (subst natToString.simps) simp
  qed
qed

lemma natToString_no_space: "c \<in> set (natToString n) \<Longrightarrow> \<not> isSpace c"
  using natToString_digits [of n] by (auto simp: isSpace_def)

lemma createStableUID_word:
  "createStableUID h \<noteq> [] \<and> (\<forall>c\<in>set (createStableUID h). \<not> isSpace c)"
proof -
  have "\<forall>c\<in>set ''benchapp-stable-''. \<not> isSpace c" by (simp add: isSpace_def)
  then show ?thesis
    unfolding createStableUID_def Let_def using natToString_no_space by auto
qed

section \<open>Maps and loops\<close>

lemma map_of_mapSet: "map_of (mapSet m k v) = (map_of m)(k \<mapsto> v)"
  by (induction m k v rule: mapSet.induct) (auto simp: fun_eq_iff)

lemma indexBy_char:
  "map_of (foldl (\<lambda>m (i, e). case f e of None \<Rightarrow> m | Some k \<Rightarrow> mapSet m k i) [] (zip [0..<length xs] xs)) key = Some j
   \<longleftrightarrow> j < length xs \<and> f (xs ! j) = Some key \<and> (\<forall>i. j < i \<and> i < length xs \<longrightarrow> f (xs ! i) \<noteq> Some key)"
proof (induction xs arbitrary: j rule: rev_induct)
  case Nil
  then show ?case by simp
next
  case (snoc x xs)
  let ?M = "foldl (\<lambda>m (i, e). case f e of None \<Rightarrow> m | Some k \<Rightarrow> mapSet m k i) [] (zip [0..<length xs] xs)"
  let ?R = "\<lambda>ys j. j < length ys \<and> f (ys ! j) = Some key \<and> (\<forall>i. j < i \<and> i < length ys \<longrightarrow> f (ys ! i) \<noteq> Some key)"
  have step: "foldl (\<lambda>m (i, e). case f e of None \<Rightarrow> m | Some k \<Rightarrow> mapSet m k i) [] (zip [0..<length (xs @ [x])] (xs @ [x]))
      = (case f x of None \<Rightarrow> ?M | Some k \<Rightarrow> mapSet ?M k (length xs))"
    by simp
  show ?case
  proof (cases "f x = Some key")
    case True
    have l: "map_of (mapSet ?M key (length xs)) key = Some (length xs)"
      by (simp add: map_of_mapSet)
    have r: "?R (xs @ [x]) j \<longleftrightarrow> j = length xs"
    proof
      assume a: "?R (xs @ [x]) j"
      show "j = length xs"
      proof (rule ccontr)
        assume "j \<noteq> length xs"
        with a have jl: "j < length xs" by simp
        from a have "\<forall>i. j < i \<and> i < length (xs @ [x]) \<longrightarrow> f ((xs @ [x]) ! i) \<noteq> Some key"
          by blast
        then have "j < length xs \<and> length xs < length (xs @ [x]) \<longrightarrow> f ((xs @ [x]) ! length xs) \<noteq> Some key"
          by (rule spec)
        with jl have "f ((xs @ [x]) ! length xs) \<noteq> Some key" by simp
        with True show False by simp
      qed
    next
      assume "j = length xs"
      with True show "?R (xs @ [x]) j" by auto
    qed
    show ?thesis unfolding step using True l r by auto
  next
    case False
    have l: "map_of (case f x of None \<Rightarrow> ?M | Some k \<Rightarrow> mapSet ?M k (length xs)) key = map_of ?M key"
      using False by (simp add: map_of_mapSet split: option.splits)
    have r: "?R (xs @ [x]) j \<longleftrightarrow> ?R xs j"
    proof
      assume a: "?R (xs @ [x]) j"
      have "j \<noteq> length xs" using a False by auto
      with a have jl: "j < length xs" by simp
      with a have fj: "f (xs ! j) = Some key" by (simp add: nth_append)
      have "\<forall>i. j < i \<and> i < length xs \<longrightarrow> f (xs ! i) \<noteq> Some key"
      proof (intro allI impI)
        fix i assume i: "j < i \<and> i < length xs"
        from a have "\<forall>i. j < i \<and> i < length (xs @ [x]) \<longrightarrow> f ((xs @ [x]) ! i) \<noteq> Some key"
          by blast
        then have "j < i \<and> i < length (xs @ [x]) \<longrightarrow> f ((xs @ [x]) ! i) \<noteq> Some key"
          by (rule spec)
        with i have "f ((xs @ [x]) ! i) \<noteq> Some key" by simp
        with i show "f (xs ! i) \<noteq> Some key" by (simp add: nth_append)
      qed
      with jl fj show "?R xs j" by simp
    next
      assume a: "?R xs j"
      have "\<forall>i. j < i \<and> i < length (xs @ [x]) \<longrightarrow> f ((xs @ [x]) ! i) \<noteq> Some key"
      proof (intro allI impI)
        fix i assume i: "j < i \<and> i < length (xs @ [x])"
        show "f ((xs @ [x]) ! i) \<noteq> Some key"
        proof (cases "i = length xs")
          case True with False show ?thesis by simp
        next
          case False with i a show ?thesis by (simp add: nth_append)
        qed
      qed
      with a show "?R (xs @ [x]) j" by (simp add: nth_append)
    qed
    show ?thesis unfolding step l r by (rule snoc.IH)
  qed
qed

lemma existingEventMap_indexBy:
  "existingEventMap T =
     foldl (\<lambda>m (i, e). case storedUID e of None \<Rightarrow> m | Some k \<Rightarrow> mapSet m k i) [] (zip [0..<length T] T)"
proof -
  have "(\<lambda>m (i, event). (case extractUIDFromDescription (getDescription event) of
                 None \<Rightarrow> m | Some u \<Rightarrow> if u \<noteq> [] then mapSet m u i else m))
        = (\<lambda>m (i, e). case storedUID e of None \<Rightarrow> m | Some k \<Rightarrow> mapSet m k (i::nat))"
    by (auto simp: fun_eq_iff storedUID_def split: option.splits)
  then show ?thesis unfolding existingEventMap_def by simp
qed

lemma existingEventMap_Some:
  "mapGet (existingEventMap T) u = Some j \<longleftrightarrow>
     j < length T \<and> storedUID (T ! j) = Some u \<and>
     (\<forall>i. j < i \<and> i < length T \<longrightarrow> storedUID (T ! i) \<noteq> Some u)"
  unfolding mapGet_def existingEventMap_indexBy by (rule indexBy_char)

lemma hockeyEventMap_snoc:
  "hockeyEventMap (S @ [s]) = mapSet (hockeyEventMap S) (uid s) s"
  by (simp add: hockeyEventMap_def)

lemma mapHas_hockeyEventMap: "mapHas (hockeyEventMap S) u \<longleftrightarrow> u \<in> uid ` set S"
proof (induction S rule: rev_induct)
  case Nil
  then show ?case by (simp add: hockeyEventMap_def mapHas_def)
next
  case (snoc s S)
  then show ?case
    by (auto simp: hockeyEventMap_snoc mapHas_def map_of_mapSet)
qed

lemma updateEvent_createEvent: "updateEvent e h = createEvent h"
  by (cases e) (simp add: updateEvent_def createEvent_def)

subsection \<open>The loop over the hockey events\<close>

lemma addOrUpdate_cases:
  "addOrUpdate em r h =
     (case mapGet em (uid h) of
        Some j \<Rightarrow>
          if needsUpdate (events r ! j) h
          then r\<lparr>events := (events r)[j := createEvent h],
                 updated := updated r + 1,
                 requests := requests r @ [Update j h]\<rparr>
          else r\<lparr>unchanged := unchanged r + 1\<rparr>
      | None \<Rightarrow> r\<lparr>added := added r + 1, requests := requests r @ [Create h]\<rparr>)"
  by (simp add: addOrUpdate_def updateEvent_createEvent split: option.splits)

lemma addOrUpdate_counts:
  "removed (addOrUpdate em r h) = removed r"
  "migrated (addOrUpdate em r h) = migrated r"
  "added (addOrUpdate em r h) + updated (addOrUpdate em r h) + unchanged (addOrUpdate em r h)
     = Suc (added r + updated r + unchanged r)"
  by (simp_all add: addOrUpdate_cases split: option.splits)

lemma addOrUpdate_requests:
  "requests (addOrUpdate em r h) =
     requests r @
     (case mapGet em (uid h) of
        Some j \<Rightarrow> if needsUpdate (events r ! j) h then [Update j h] else []
      | None \<Rightarrow> [Create h])"
  by (simp add: addOrUpdate_cases split: option.splits)

lemma addOrUpdate_events:
  "events (addOrUpdate em r h) ! i = events r ! i \<or>
   (mapGet em (uid h) = Some i \<and> events (addOrUpdate em r h) ! i = createEvent h)"
proof -
  have u: "xs[j := v] ! i = xs ! i \<or> (j = i \<and> xs[j := v] ! i = v)" for xs :: "calendarEvent list" and j v
    by (cases "j = i"; cases "i < length xs") (simp_all add: list_update_beyond)
  show ?thesis
    using u [of "events r" _ "createEvent h"]
    by (auto simp: addOrUpdate_cases split: option.splits)
qed

lemma sourceLoop_counts:
  "removed (foldl (addOrUpdate em) r S) = removed r \<and>
   migrated (foldl (addOrUpdate em) r S) = migrated r \<and>
   added (foldl (addOrUpdate em) r S) + updated (foldl (addOrUpdate em) r S)
     + unchanged (foldl (addOrUpdate em) r S) = added r + updated r + unchanged r + length S"
  by (induction S rule: rev_induct) (simp_all add: addOrUpdate_counts)

lemma sourceLoop_no_delete:
  "Delete i \<in> set (requests (foldl (addOrUpdate em) r S)) \<Longrightarrow> Delete i \<in> set (requests r)"
  by (induction S rule: rev_induct)
     (auto simp: addOrUpdate_requests split: option.splits if_splits)

lemma sourceLoop_events:
  "events (foldl (addOrUpdate em) r S) ! i = events r ! i \<or>
   (\<exists>h\<in>set S. mapGet em (uid h) = Some i \<and> events (foldl (addOrUpdate em) r S) ! i = createEvent h)"
proof (induction S rule: rev_induct)
  case Nil
  then show ?case by simp
next
  case (snoc h S)
  let ?r = "foldl (addOrUpdate em) r S"
  from addOrUpdate_events [of em ?r h i] snoc show ?case
    by auto
qed

subsection \<open>The loop over the existing events\<close>

lemma removeMissing_cases:
  "removeMissing hm r i =
     (if removable hm (events r ! i)
      then r\<lparr>removed := removed r + 1, requests := requests r @ [Delete i]\<rparr> else r)"
  by (simp add: removeMissing_def removable_def storedUID_def split: option.splits)

lemma deleteLoop:
  "foldl (removeMissing hm) r [0..<n] =
     r\<lparr>removed := removed r + length (filter (\<lambda>i. removable hm (events r ! i)) [0..<n]),
       requests := requests r @ map Delete (filter (\<lambda>i. removable hm (events r ! i)) [0..<n])\<rparr>"
  by (induction n) (simp_all add: removeMissing_cases)

lemma processEvents_eq:
  "processEvents S T =
     (let r = foldl (addOrUpdate (existingEventMap T)) (startRun T) S;
          dels = filter (\<lambda>i. removable (hockeyEventMap S) (events r ! i)) [0..<length T]
      in r\<lparr>removed := length dels, requests := requests r @ map Delete dels\<rparr>)"
proof -
  have "removed (foldl (addOrUpdate (existingEventMap T)) (startRun T) S) = 0"
    using sourceLoop_counts [of "existingEventMap T" "startRun T" S] by (simp add: startRun_def)
  then show ?thesis
    by (simp add: processEvents_def deleteLoop Let_def)
qed

lemma processEvents_events:
  "events (processEvents S T) = events (foldl (addOrUpdate (existingEventMap T)) (startRun T) S)"
  by (simp add: processEvents_eq Let_def)

lemma processEvents_Delete:
  "Delete i \<in> set (requests (processEvents S T)) \<longleftrightarrow>
     i < length T \<and> removable (hockeyEventMap S) (events (processEvents S T) ! i)"
proof -
  let ?r = "foldl (addOrUpdate (existingEventMap T)) (startRun T) S"
  have "Delete i \<notin> set (requests ?r)"
    using sourceLoop_no_delete [of i "existingEventMap T" "startRun T" S]
    by (auto simp: startRun_def)
  then show ?thesis
    by (auto simp: processEvents_eq Let_def)
qed

lemma processEvents_event_cases:
  "events (processEvents S T) ! i = T ! i \<or>
   (\<exists>h\<in>set S. mapGet (existingEventMap T) (uid h) = Some i \<and>
       events (processEvents S T) ! i = createEvent h)"
  using sourceLoop_events [of "existingEventMap T" "startRun T" S i]
  by (simp add: processEvents_events startRun_def)

subsection \<open>The maps of the stable-UID script\<close>

lemma existingEventMap_stable_indexBy:
  "existingEventMap_stable T =
     foldl (\<lambda>m (i, e). case storedUID_stable e of None \<Rightarrow> m | Some k \<Rightarrow> mapSet m k i) []
       (zip [0..<length T] T)"
proof -
  have "(\<lambda>m (i, event). (case extractUIDFromDescription_stable (getDescription event) of
                 None \<Rightarrow> m | Some u \<Rightarrow> if u \<noteq> [] then mapSet m u i else m))
        = (\<lambda>m (i, e). case storedUID_stable e of None \<Rightarrow> m | Some k \<Rightarrow> mapSet m k (i::nat))"
    by (auto simp: fun_eq_iff storedUID_stable_def split: option.splits)
  then show ?thesis unfolding existingEventMap_stable_def by simp
qed

subsection \<open>The loops of the stable-UID script\<close>

lemma addUpdateOrMigrate_cases:
  "addUpdateOrMigrate em bc r h =
     (case mapGet em (uid h) of
        Some j \<Rightarrow>
          if needsUpdate_stable (events r ! j) h
          then r\<lparr>events := (events r)[j := createEvent h],
                 updated := updated r + 1,
                 requests := requests r @ [Update j h]\<rparr>
          else r\<lparr>unchanged := unchanged r + 1\<rparr>
      | None \<Rightarrow>
          (case mapGet bc (hockeyContentKey h) of
             Some j \<Rightarrow>
               r\<lparr>events := (events r)[j := createEvent h],
                 migrated := migrated r + 1,
                 requests := requests r @ [Update j h]\<rparr>
           | None \<Rightarrow> r\<lparr>added := added r + 1, requests := requests r @ [Create h]\<rparr>))"
  by (simp add: addUpdateOrMigrate_def updateEvent_createEvent split: option.splits)

lemma addUpdateOrMigrate_counts:
  "removed (addUpdateOrMigrate em bc r h) = removed r"
  "added (addUpdateOrMigrate em bc r h) + updated (addUpdateOrMigrate em bc r h)
     + migrated (addUpdateOrMigrate em bc r h) + unchanged (addUpdateOrMigrate em bc r h)
     = Suc (added r + updated r + migrated r + unchanged r)"
  by (simp_all add: addUpdateOrMigrate_cases split: option.splits)

lemma stableLoop_counts:
  "removed (foldl (addUpdateOrMigrate em bc) r S) = removed r \<and>
   added (foldl (addUpdateOrMigrate em bc) r S) + updated (foldl (addUpdateOrMigrate em bc) r S)
     + migrated (foldl (addUpdateOrMigrate em bc) r S) + unchanged (foldl (addUpdateOrMigrate em bc) r S)
     = added r + updated r + migrated r + unchanged r + length S"
  by (induction S rule: rev_induct) (simp_all add: addUpdateOrMigrate_counts)

lemma removeUnmatchedLoop:
  "foldl (removeUnmatched hm) r [0..<n] =
     r\<lparr>removed := removed r + length (filter (\<lambda>i. unmatched hm (events r ! i)) [0..<n]),
       requests := requests r @ map Delete (filter (\<lambda>i. unmatched hm (events r ! i)) [0..<n])\<rparr>"
  by (induction n) (simp_all add: removeUnmatched_def unmatched_def)

lemma processEventsWithStableUIDs_eq:
  "processEventsWithStableUIDs S T =
     (let r = foldl (addUpdateOrMigrate (existingEventMap_stable T) (existingByContent T)) (startRun T) S;
          dels = filter (\<lambda>i. unmatched (hockeyEventMap S) (events r ! i)) [0..<length T]
      in r\<lparr>removed := length dels, requests := requests r @ map Delete dels\<rparr>)"
proof -
  have "removed (foldl (addUpdateOrMigrate (existingEventMap_stable T) (existingByContent T)) (startRun T) S) = 0"
    using stableLoop_counts [of "existingEventMap_stable T" "existingByContent T" "startRun T" S]
    by (simp add: startRun_def)
  then show ?thesis
    by (simp add: processEventsWithStableUIDs_def removeUnmatchedLoop Let_def)
qed

text \<open>Every hockey event is counted once by the loop over the hockey events.\<close>

lemma processEvents_counts:
  "added (processEvents S T) + updated (processEvents S T) + unchanged (processEvents S T) = length S
   \<and> migrated (processEvents S T) = 0"
  using sourceLoop_counts [of "existingEventMap T" "startRun T" S]
  by (simp add: processEvents_eq Let_def startRun_def)

lemma processEventsWithStableUIDs_counts:
  "added (processEventsWithStableUIDs S T) + updated (processEventsWithStableUIDs S T)
     + migrated (processEventsWithStableUIDs S T) + unchanged (processEventsWithStableUIDs S T) = length S"
  using stableLoop_counts [of "existingEventMap_stable T" "existingByContent T" "startRun T" S]
  by (simp add: processEventsWithStableUIDs_eq Let_def startRun_def)

subsection \<open>What the removal tests mean\<close>

lemma uid_image_iff: "u \<in> uid ` set S \<longleftrightarrow> (\<exists>h\<in>set S. uid h = u)"
  by (rule image_iff [THEN trans]) (rule bex_cong [OF refl], rule eq_commute)

lemma removable_iff:
  "removable (hockeyEventMap S) x \<longleftrightarrow> (\<exists>u. storedUID x = Some u \<and> (\<forall>h\<in>set S. uid h \<noteq> u))"
proof (cases "storedUID x")
  case None
  then show ?thesis by (simp add: removable_def)
next
  case (Some u)
  then show ?thesis by (simp add: removable_def mapHas_hockeyEventMap uid_image_iff)
qed

lemma existsByUID_stored:
  "existsByUID hm x \<longleftrightarrow> (\<exists>u. storedUID_stable x = Some u \<and> mapHas hm u)"
proof (cases "extractUIDFromDescription_stable (getDescription x)")
  case None
  then show ?thesis by (simp add: existsByUID_def storedUID_stable_def)
next
  case (Some u)
  then show ?thesis by (cases "u = []") (simp_all add: existsByUID_def storedUID_stable_def)
qed

lemma existsByUID_iff:
  "existsByUID (hockeyEventMap S) x \<longleftrightarrow> (\<exists>h\<in>set S. storedUID_stable x = Some (uid h))"
proof (cases "storedUID_stable x")
  case None
  then show ?thesis by (simp add: existsByUID_stored)
next
  case (Some u)
  then show ?thesis by (auto simp: existsByUID_stored mapHas_hockeyEventMap)
qed

lemma existsByContent_iff:
  "existsByContent (hockeyEventMap S) x \<longleftrightarrow>
     (\<exists>v\<in>set (mapValues (hockeyEventMap S)). hockeyContentKey v = existingContentKey x)"
  by (simp add: existsByContent_def list_ex_iff)

lemma replaceFirst_prefix: "replaceFirst p (p @ t) = t"
proof (cases "p @ t")
  case Nil
  then show ?thesis by simp
next
  case (Cons c cs)
  have s: "startsWith (c # cs) p" unfolding Cons [symmetric] by (simp add: startsWith_def)
  have d: "drop (length p) (c # cs) = t" unfolding Cons [symmetric] by simp
  show ?thesis unfolding Cons by (simp only: replaceFirst.simps s d if_True)
qed

lemma existingContentKey_createEvent: "existingContentKey (createEvent h) = hockeyContentKey h"
  by (simp add: existingContentKey_def hockeyContentKey_def createEvent_def replaceFirst_prefix)

section \<open>Determinism of the stable UID\<close>

text \<open>
  C4: two events with the same title, start time and location get the same stable UID,
  whatever their end time, description or stored \<open>uid\<close> field are.
\<close>

theorem createStableUID_deterministic:
  assumes "title e1 = title e2" and "startTime e1 = startTime e2" and "location e1 = location e2"
  shows "createStableUID e1 = createStableUID e2"
  using assms by (simp add: createStableUID_def stableString_def)

theorem createStableUID_deterministic_witness:
  "title practice = title practiceWithNotes \<and>
   startTime practice = startTime practiceWithNotes \<and>
   location practice = location practiceWithNotes \<and>
   createStableUID practice = createStableUID practiceWithNotes \<and>
   createStableUID practice = uid practice"
proof -
  have t: "title practice = title practiceWithNotes"
    and s: "startTime practice = startTime practiceWithNotes"
    and l: "location practice = location practiceWithNotes"
    by (simp_all add: practice_def practiceWithNotes_def)
  have u: "createStableUID practice = uid practice"
    by (simp add: practice_def createStableUID_def stableString_def trim_def isSpace_def
        intToString_def natToString.simps digitChar_def orEmpty_def hashString_def hashStep_def)
  from createStableUID_deterministic [OF t s l] t s l u show ?thesis by simp
qed

section \<open>A failed fetch\<close>

lemma fetch_failure_is_empty_feed:
  "syncHockeyCalendar parseICSData FetchThrows familyCalendar
     = syncHockeyCalendar (\<lambda>icsData. []) (Response icsData) familyCalendar"
  by (simp add: syncHockeyCalendar_def fetchHockeyEvents_def split: option.splits)

text \<open>
  C1: the claim is that a run whose fetch throws deletes nothing. In the code
  \<open>fetchHockeyEvents\<close> catches the error and returns the empty list, so the run goes on as
  with an empty feed: with the practice in the calendar, the run asks for its deletion
  and counts one removed event.
\<close>

theorem sync_deletes_after_failed_fetch:
  "syncHockeyCalendar parseICSData FetchThrows (Some [createEvent practice])
     = Inr ((startRun [createEvent practice])\<lparr>removed := 1, requests := [Delete 0]\<rparr>)"
  by (simp add: syncHockeyCalendar_def fetchHockeyEvents_def getExistingHockeyEvents_def
      processEvents_def hockeyEventMap_def existingEventMap_def removeMissing_def mapHas_def
      startRun_def practice_def string_eval event_eval)

section \<open>The tolerance of the time comparison\<close>






section \<open>Events without a stored UID\<close>

lemma processEvents_removed:
  "removed (processEvents S T) =
     length (filter (\<lambda>i. Delete i \<in> set (requests (processEvents S T))) [0..<length T])"
proof -
  have "filter (\<lambda>i. Delete i \<in> set (requests (processEvents S T))) [0..<length T]
      = filter (\<lambda>i. removable (hockeyEventMap S) (events (processEvents S T) ! i)) [0..<length T]"
    by (rule filter_cong) (simp_all add: processEvents_Delete)
  then show ?thesis by (simp add: processEvents_eq Let_def)
qed

text \<open>
  C10: an existing event from whose description \<open>extractUIDFromDescription\<close> extracts nothing
  is left as it is by \<open>processEvents\<close>: no deletion is asked for it, whatever the hockey events
  are, and \<open>removed\<close> counts the events whose deletion is asked for, so it does not count it.
\<close>

theorem unmarked_survive:
  assumes "i < length T" and "extractUIDFromDescription (getDescription (T ! i)) = None"
  shows "Delete i \<notin> set (requests (processEvents S T)) \<and>
         events (processEvents S T) ! i = T ! i \<and>
         removed (processEvents S T) =
           length (filter (\<lambda>j. Delete j \<in> set (requests (processEvents S T))) [0..<length T])"
proof -
  have n: "storedUID (T ! i) = None" using assms(2) by (simp add: storedUID_def)
  have "\<not> (\<exists>h\<in>set S. mapGet (existingEventMap T) (uid h) = Some i)"
    using n by (auto simp: existingEventMap_Some)
  with processEvents_event_cases [of S T i] have e: "events (processEvents S T) ! i = T ! i"
    by blast
  with n have "Delete i \<notin> set (requests (processEvents S T))"
    by (simp add: processEvents_Delete removable_def)
  with e processEvents_removed show ?thesis by simp
qed

theorem unmarked_survive_witness:
  "(0::nat) < length [unmarkedEvent] \<and>
   extractUIDFromDescription (getDescription ([unmarkedEvent] ! 0)) = None \<and>
   getExistingHockeyEvents [unmarkedEvent] = [unmarkedEvent] \<and>
   Delete 0 \<notin> set (requests (processEvents [] [unmarkedEvent])) \<and>
   events (processEvents [] [unmarkedEvent]) ! 0 = unmarkedEvent \<and>
   removed (processEvents [] [unmarkedEvent]) = 0"
proof -
  have a: "(0::nat) < length [unmarkedEvent]" by simp
  have b: "extractUIDFromDescription (getDescription ([unmarkedEvent] ! 0)) = None"
    by (simp add: unmarkedEvent_def string_eval event_eval)
  have c: "getExistingHockeyEvents [unmarkedEvent] = [unmarkedEvent]"
    by (simp add: getExistingHockeyEvents_def unmarkedEvent_def string_eval)
  from unmarked_survive [OF a b, of "[]"] a b c show ?thesis by simp
qed

section \<open>The marker round trip\<close>

text \<open>
  C9: for a hockey event as the parser makes it (its \<open>uid\<close> is its stable UID) whose
  description does not contain \<open>Hockey-UID:\<close>, \<open>extractUIDFromDescription\<close> applied to the
  description that \<open>createEvent\<close> stores returns the event's \<open>uid\<close>.
\<close>

theorem marker_round_trip:
  assumes "uid h = createStableUID h"
    and "\<not> includesStr (orEmpty (description h)) uidMarker"
  shows "extractUIDFromDescription (getDescription (createEvent h)) = Some (uid h)"
proof -
  have "uid h \<noteq> []" and "\<forall>c\<in>set (uid h). \<not> isSpace c"
    using createStableUID_word [of h] assms(1) by simp_all
  with assms(2) have "extractUIDFromDescription (storedDescription h) = Some (uid h)"
    by (rule extract_stored)
  then show ?thesis by (simp add: createEvent_def)
qed

theorem marker_round_trip_witness:
  "uid practiceWithNotes = createStableUID practiceWithNotes \<and>
   \<not> includesStr (orEmpty (description practiceWithNotes)) uidMarker \<and>
   getDescription (createEvent practiceWithNotes)
     = ''Bring skates'' @ [newline, newline] @ ''Hockey-UID: benchapp-stable-255548776'' \<and>
   extractUIDFromDescription (getDescription (createEvent practiceWithNotes))
     = Some ''benchapp-stable-255548776''"
proof -
  have a: "uid practiceWithNotes = createStableUID practiceWithNotes"
    by (simp add: practiceWithNotes_def practice_def uid_eval string_eval)
  have b: "\<not> includesStr (orEmpty (description practiceWithNotes)) uidMarker"
    by (simp add: practiceWithNotes_def practice_def string_eval)
  have c: "getDescription (createEvent practiceWithNotes)
     = ''Bring skates'' @ [newline, newline] @ ''Hockey-UID: benchapp-stable-255548776''"
    by (simp add: practiceWithNotes_def practice_def createEvent_def storedDescription_def
        string_eval)
  have d: "uid practiceWithNotes = ''benchapp-stable-255548776''"
    by (simp add: practiceWithNotes_def practice_def)
  from marker_round_trip [OF a b] a b c d show ?thesis by simp
qed

section \<open>The comparison of locations\<close>

lemma isSpace_lowerChar: "isSpace (lowerChar c) = isSpace c"
proof (cases "map_of (zip upperChars lowerChars) c")
  case None
  then show ?thesis by (simp add: lowerChar_def)
next
  case (Some l)
  then have "(c, l) \<in> set (zip upperChars lowerChars)" by (rule map_of_SomeD)
  then have "c \<in> set upperChars" and "l \<in> set lowerChars"
    by (auto dest: set_zip_leftD set_zip_rightD)
  then have "\<not> isSpace c" and "\<not> isSpace l"
    by (auto simp: upperChars_def lowerChars_def isSpace_def)
  with Some show ?thesis by (simp add: lowerChar_def)
qed

lemma dropWhile_isSpace_lower:
  "dropWhile isSpace (map lowerChar s) = map lowerChar (dropWhile isSpace s)"
  by (induction s) (simp_all add: isSpace_lowerChar)

lemma trim_toLowerCase: "trim (toLowerCase s) = toLowerCase (trim s)"
  by (simp add: trim_def toLowerCase_def dropWhile_isSpace_lower rev_map)

lemma needsUpdate_location:
  assumes "agreeOutsideLocation t h"
  shows "needsUpdate t h \<longleftrightarrow>
           toLowerCase (trim (getLocation t)) \<noteq> toLowerCase (trim (orEmpty (location h)))"
  using assms by (auto simp: needsUpdate_def agreeOutsideLocation_def Let_def trim_toLowerCase)

lemma needsUpdate_stable_location:
  assumes "agreeOutsideLocation_stable t h"
  shows "needsUpdate_stable t h \<longleftrightarrow> trim (getLocation t) \<noteq> trim (orEmpty (location h))"
  using assms by (auto simp: needsUpdate_stable_def agreeOutsideLocation_stable_def Let_def)

text \<open>
  C8, as stated, fails on the \<open>needsUpdate\<close> of the stable-UID script, which trims the
  locations and compares them as they are: the practice stored with the location
  \<open>rink a\<close> needs an update for the hockey event in \<open>Rink A\<close>, all other fields agreeing.
\<close>

theorem needsUpdate_stable_case_sensitive:
  "agreeOutsideLocation_stable practiceLowerCase practiceWithNotes \<and>
   toLowerCase (trim (getLocation practiceLowerCase))
     = toLowerCase (trim (orEmpty (location practiceWithNotes))) \<and>
   needsUpdate_stable practiceLowerCase practiceWithNotes = True"
  by (simp add: needsUpdate_stable_def agreeOutsideLocation_stable_def practiceLowerCase_def
      practiceWithNotes_def practice_def string_eval event_eval lower_eval)

text \<open>
  C8, amended: in the clean script, an existing event whose location equals the hockey
  event's after trimming and lower-casing, all other compared fields agreeing, needs no
  update, and \<open>processEvents\<close> counts the hockey event it matches as unchanged and asks
  nothing of the calendar. In the stable-UID script the locations are trimmed and compared
  with their letter case: such an event needs an update exactly when the trimmed locations
  differ.
\<close>

theorem needsUpdate_location_case_insensitive:
  "(agreeOutsideLocation t h \<and>
    toLowerCase (trim (getLocation t)) = toLowerCase (trim (orEmpty (location h)))
    \<longrightarrow> \<not> needsUpdate t h \<and>
        (\<forall>existingMap r j. mapGet existingMap (uid h) = Some j \<and> events r ! j = t \<longrightarrow>
            addOrUpdate existingMap r h = r\<lparr>unchanged := unchanged r + 1\<rparr>)) \<and>
   (agreeOutsideLocation_stable t h
    \<longrightarrow> needsUpdate_stable t h = (trim (getLocation t) \<noteq> trim (orEmpty (location h))))"
proof -
  have clean: "agreeOutsideLocation t h \<and>
      toLowerCase (trim (getLocation t)) = toLowerCase (trim (orEmpty (location h)))
      \<longrightarrow> \<not> needsUpdate t h \<and>
        (\<forall>existingMap r j. mapGet existingMap (uid h) = Some j \<and> events r ! j = t \<longrightarrow>
            addOrUpdate existingMap r h = r\<lparr>unchanged := unchanged r + 1\<rparr>)"
  proof
    assume "agreeOutsideLocation t h \<and>
      toLowerCase (trim (getLocation t)) = toLowerCase (trim (orEmpty (location h)))"
    then have n: "\<not> needsUpdate t h" by (simp add: needsUpdate_location)
    then have "\<forall>existingMap r j. mapGet existingMap (uid h) = Some j \<and> events r ! j = t \<longrightarrow>
            addOrUpdate existingMap r h = r\<lparr>unchanged := unchanged r + 1\<rparr>"
      by (auto simp: addOrUpdate_def)
    with n show "\<not> needsUpdate t h \<and>
        (\<forall>existingMap r j. mapGet existingMap (uid h) = Some j \<and> events r ! j = t \<longrightarrow>
            addOrUpdate existingMap r h = r\<lparr>unchanged := unchanged r + 1\<rparr>)"
      by (rule conjI)
  qed
  have stable: "agreeOutsideLocation_stable t h
      \<longrightarrow> needsUpdate_stable t h = (trim (getLocation t) \<noteq> trim (orEmpty (location h)))"
    using needsUpdate_stable_location by blast
  from clean stable show ?thesis by (rule conjI)
qed

theorem needsUpdate_location_case_insensitive_witness:
  "agreeOutsideLocation practiceLowerCase practiceWithNotes \<and>
   agreeOutsideLocation_stable practiceLowerCase practiceWithNotes \<and>
   getLocation practiceLowerCase = ''rink a'' \<and>
   location practiceWithNotes = Some ''Rink A'' \<and>
   needsUpdate practiceLowerCase practiceWithNotes = False \<and>
   addOrUpdate [(uid practiceWithNotes, 0)] (startRun [practiceLowerCase]) practiceWithNotes
     = (startRun [practiceLowerCase])\<lparr>unchanged := 1\<rparr> \<and>
   needsUpdate_stable practiceLowerCase practiceWithNotes = True"
proof -
  have a: "agreeOutsideLocation practiceLowerCase practiceWithNotes"
    by (simp add: agreeOutsideLocation_def practiceLowerCase_def practiceWithNotes_def
        practice_def string_eval event_eval)
  have b: "agreeOutsideLocation_stable practiceLowerCase practiceWithNotes"
    by (simp add: agreeOutsideLocation_stable_def practiceLowerCase_def practiceWithNotes_def
        practice_def string_eval event_eval)
  have c: "toLowerCase (trim (getLocation practiceLowerCase))
     = toLowerCase (trim (orEmpty (location practiceWithNotes)))"
    by (simp add: practiceLowerCase_def practiceWithNotes_def practice_def string_eval
        lower_eval)
  have d: "getLocation practiceLowerCase = ''rink a''"
    and e: "location practiceWithNotes = Some ''Rink A''"
    by (simp_all add: practiceLowerCase_def practiceWithNotes_def practice_def)
  have f: "mapGet [(uid practiceWithNotes, 0::nat)] (uid practiceWithNotes) = Some 0"
    and g: "events (startRun [practiceLowerCase]) ! 0 = practiceLowerCase"
    and u: "unchanged (startRun [practiceLowerCase]) = 0"
    by (simp_all add: mapGet_def startRun_def)
  have t: "trim (getLocation practiceLowerCase) \<noteq> trim (orEmpty (location practiceWithNotes))"
    by (simp add: d e string_eval)
  from needsUpdate_location_case_insensitive [of practiceLowerCase practiceWithNotes] a b c
  have 1: "\<not> needsUpdate practiceLowerCase practiceWithNotes"
    and 2: "\<forall>existingMap r j. mapGet existingMap (uid practiceWithNotes) = Some j \<and>
              events r ! j = practiceLowerCase \<longrightarrow>
              addOrUpdate existingMap r practiceWithNotes = r\<lparr>unchanged := unchanged r + 1\<rparr>"
    and 3: "needsUpdate_stable practiceLowerCase practiceWithNotes
              = (trim (getLocation practiceLowerCase) \<noteq> trim (orEmpty (location practiceWithNotes)))"
    by blast+
  from 2 f g have "addOrUpdate [(uid practiceWithNotes, 0)] (startRun [practiceLowerCase]) practiceWithNotes
     = (startRun [practiceLowerCase])\<lparr>unchanged := unchanged (startRun [practiceLowerCase]) + 1\<rparr>"
    by blast
  with u have 4: "addOrUpdate [(uid practiceWithNotes, 0)] (startRun [practiceLowerCase]) practiceWithNotes
     = (startRun [practiceLowerCase])\<lparr>unchanged := 1\<rparr>" by simp
  from a b d e 1 3 t 4 show ?thesis by simp
qed

section \<open>The examples evaluated\<close>

lemma practiceWithNotes_stored:
  "storedUID (createEvent practiceWithNotes) = Some ''benchapp-stable-255548776''"
  by (simp add: practiceWithNotes_def practice_def storedUID_def string_eval event_eval)

lemma practiceMarkedNotes_keys:
  "uid practiceMarkedNotes = ''benchapp-stable-255548776''"
  "createStableUID practiceMarkedNotes = ''benchapp-stable-255548776''"
  by (simp_all add: practiceMarkedNotes_def practiceWithNotes_def practice_def uid_eval string_eval)

lemma practiceMarkedNotes_stored:
  "storedUID (createEvent practiceMarkedNotes) = Some ''8841@benchapp.com''"
  by (simp add: practiceMarkedNotes_def practiceWithNotes_def practice_def storedUID_def
      string_eval event_eval)

lemma practiceMarkedNotes_changed:
  "needsUpdate (createEvent practiceWithNotes) practiceMarkedNotes"
  by (simp add: needsUpdate_def practiceMarkedNotes_def practiceWithNotes_def practice_def
      string_eval event_eval lower_eval)

lemma practiceMarkedNotes_maps:
  "existingEventMap [createEvent practiceMarkedNotes] = [(''8841@benchapp.com'', 0)]"
  "existingEventMap [createEvent practiceWithNotes] = [(''benchapp-stable-255548776'', 0)]"
  by (simp_all add: existingEventMap_indexBy practiceMarkedNotes_stored practiceWithNotes_stored)

lemma practiceMarkedNotes_removable:
  "removable (hockeyEventMap [practiceMarkedNotes]) (createEvent practiceMarkedNotes)"
  by (simp add: removable_iff practiceMarkedNotes_stored practiceMarkedNotes_keys)

lemma practiceMarkedNotes_first_run:
  "processEvents [practiceMarkedNotes] []
     = (startRun [])\<lparr>added := 1, requests := [Create practiceMarkedNotes]\<rparr>"
  by (simp add: processEvents_eq addOrUpdate_cases mapGet_def existingEventMap_def startRun_def)

lemma practiceMarkedNotes_second_run:
  "processEvents [practiceMarkedNotes] [createEvent practiceMarkedNotes]
     = (startRun [createEvent practiceMarkedNotes])
         \<lparr>added := 1, removed := 1, requests := [Create practiceMarkedNotes, Delete 0]\<rparr>"
  by (simp add: processEvents_eq addOrUpdate_cases mapGet_def practiceMarkedNotes_maps
      practiceMarkedNotes_keys practiceMarkedNotes_removable startRun_def)

lemma game_uids:
  "uid gameAa = ''benchapp-stable-900821397''"
  "uid gameBB = ''benchapp-stable-900821397''"
  "uid gameAaMarkedNotes = ''benchapp-stable-900821397''"
  "createStableUID gameAa = ''benchapp-stable-900821397''"
  "createStableUID gameBB = ''benchapp-stable-900821397''"
  "createStableUID gameAaMarkedNotes = ''benchapp-stable-900821397''"
  by (simp_all add: gameAa_def gameBB_def gameAaMarkedNotes_def uid_eval string_eval)

lemma game_keys:
  "hockeyContentKey gameAa = ''Game Aa|1700000000000|Rink A''"
  "hockeyContentKey gameBB = ''Game BB|1700000000000|Rink A''"
  "hockeyContentKey gameAaMarkedNotes = ''Game Aa|1700000000000|Rink A''"
  "existingContentKey legacyGameAa = ''Game Aa|1700000000000|Rink A''"
  "existingContentKey (createEvent gameAa) = ''Game Aa|1700000000000|Rink A''"
  "existingContentKey (createEvent gameBB) = ''Game BB|1700000000000|Rink A''"
  "existingContentKey (createEvent gameAaMarkedNotes) = ''Game Aa|1700000000000|Rink A''"
  by (simp_all add: existingContentKey_createEvent legacyGameAa_def)
     (simp_all add: gameAa_def gameBB_def gameAaMarkedNotes_def stable_eval string_eval
        createEvent_def)

lemma game_stored:
  "storedUID_stable legacyGameAa = Some ''8841@benchapp.com''"
  "storedUID_stable (createEvent gameAa) = Some ''benchapp-stable-900821397''"
  "storedUID_stable (createEvent gameBB) = Some ''benchapp-stable-900821397''"
  "storedUID_stable (createEvent gameAaMarkedNotes) = Some ''8841@benchapp.com''"
  by (simp_all add: legacyGameAa_def gameAa_def gameBB_def gameAaMarkedNotes_def
      storedUID_stable_def extractUIDFromDescription_stable_def string_eval event_eval)

lemma game_changed:
  "\<not> needsUpdate_stable (createEvent gameAa) gameAa"
  "needsUpdate_stable (createEvent gameAa) gameBB"
  by (simp_all add: needsUpdate_stable_def gameAa_def gameBB_def string_eval event_eval)

lemma game_maps:
  "existingEventMap_stable [createEvent gameAa, legacyGameAa]
     = [(''benchapp-stable-900821397'', 0), (''8841@benchapp.com'', 1)]"
  "existingByContent [createEvent gameAa, legacyGameAa] = [(''Game Aa|1700000000000|Rink A'', 1)]"
  "existingEventMap_stable [legacyGameAa] = [(''8841@benchapp.com'', 0)]"
  "existingByContent [legacyGameAa] = [(''Game Aa|1700000000000|Rink A'', 0)]"
  by (simp_all add: existingEventMap_stable_indexBy existingByContent_def game_stored game_keys)

lemma game_values:
  "mapValues (hockeyEventMap [gameAa, gameBB]) = [gameBB]"
  "mapValues (hockeyEventMap [gameAaMarkedNotes, gameBB]) = [gameBB]"
  by (simp_all add: hockeyEventMap_def mapValues_def game_uids)

lemma game_unmatched:
  "\<not> unmatched (hockeyEventMap [gameAa, gameBB]) (createEvent gameBB)"
  "unmatched (hockeyEventMap [gameAa, gameBB]) legacyGameAa"
  "unmatched (hockeyEventMap [gameAaMarkedNotes, gameBB]) (createEvent gameAaMarkedNotes)"
  unfolding unmatched_def existsByUID_iff existsByContent_iff
  by (simp_all add: game_values game_stored game_keys game_uids)

section \<open>Running the reconciliation again\<close>

text \<open>
  C2: a second run, on the calendar that the first run leaves, should ask for nothing. The
  feed holds one practice, as the parser makes it, whose notes contain \<open>Hockey-UID:\<close>, and
  the calendar is empty. The first run creates the practice; the calendar then holds that
  one event, so there is one way to list it. From the description that \<open>createEvent\<close> has
  stored, \<open>extractUIDFromDescription\<close> reads the text after the first \<open>Hockey-UID:\<close>, which
  is in the notes and is not the UID of the practice. So the second run of \<open>processEvents\<close>
  does not find the practice in the calendar: it creates it again and deletes the event
  that the first run had created. The calendar then holds the same one event, so every
  later run does the same.
\<close>

theorem marked_notes_recreated_every_run:
  "uid practiceMarkedNotes = createStableUID practiceMarkedNotes \<and>
   processEvents [practiceMarkedNotes] []
     = (startRun [])\<lparr>added := 1, requests := [Create practiceMarkedNotes]\<rparr> \<and>
   calendarAfter (processEvents [practiceMarkedNotes] []) = mset [createEvent practiceMarkedNotes] \<and>
   processEvents [practiceMarkedNotes] [createEvent practiceMarkedNotes]
     = (startRun [createEvent practiceMarkedNotes])
         \<lparr>added := 1, removed := 1, requests := [Create practiceMarkedNotes, Delete 0]\<rparr> \<and>
   calendarAfter (processEvents [practiceMarkedNotes] [createEvent practiceMarkedNotes])
     = mset [createEvent practiceMarkedNotes]"
  by (simp add: practiceMarkedNotes_first_run practiceMarkedNotes_second_run calendarAfter_def
      createdEvents_def startRun_def practiceMarkedNotes_keys)

section \<open>The classifications\<close>

text \<open>
  C6: no existing event should be counted in two classifications. The calendar holds the
  practice with notes, under its stable UID, and the feed now has the practice with notes
  that contain \<open>Hockey-UID:\<close>. \<open>processEvents\<close> finds the existing event by its UID and
  updates it. The removal loop then reads the description just written, extracts the text
  after the first \<open>Hockey-UID:\<close>, which is the UID of no hockey event, and deletes the
  event: the one existing event is counted in \<open>updated\<close> and in \<open>removed\<close>, although the
  practice is in the feed.
\<close>

theorem updated_event_also_removed:
  "uid practiceMarkedNotes = createStableUID practiceMarkedNotes \<and>
   storedUID (createEvent practiceWithNotes) = Some (uid practiceMarkedNotes) \<and>
   processEvents [practiceMarkedNotes] [createEvent practiceWithNotes]
     = (startRun [createEvent practiceWithNotes])
         \<lparr>events := [createEvent practiceMarkedNotes], updated := 1, removed := 1,
          requests := [Update 0 practiceMarkedNotes, Delete 0]\<rparr>"
  by (simp add: processEvents_eq addOrUpdate_cases mapGet_def practiceMarkedNotes_maps
      practiceMarkedNotes_keys practiceMarkedNotes_removable practiceMarkedNotes_changed
      practiceWithNotes_stored startRun_def)

section \<open>Deletion\<close>

text \<open>
  C3: an existing event that has the content key of a hockey event should not be deleted.
  Game Aa and Game BB, as the parser makes them, have the same start time and location, and
  their stable UIDs are equal. The calendar holds Game Aa under that stable UID and once
  more under the UID of the feed. \<open>hockeyEventMap\<close> keeps one hockey event for each UID, here
  Game BB, and the removal loop of \<open>processEventsWithStableUIDs\<close> compares content keys
  with the values of that map only. So it does not find the content key of Game Aa and
  deletes the second existing event, although Game Aa is in the feed with that content key.
\<close>

theorem collision_hides_content_match:
  "uid gameAa = createStableUID gameAa \<and>
   uid gameBB = createStableUID gameBB \<and>
   existingContentKey legacyGameAa = hockeyContentKey gameAa \<and>
   processEventsWithStableUIDs [gameAa, gameBB] [createEvent gameAa, legacyGameAa]
     = (startRun [createEvent gameAa, legacyGameAa])
         \<lparr>events := [createEvent gameBB, legacyGameAa], updated := 1, unchanged := 1,
          removed := 1, requests := [Update 0 gameBB, Delete 1]\<rparr>"
  by (simp add: processEventsWithStableUIDs_eq addUpdateOrMigrate_cases mapGet_def
      game_maps game_uids game_keys game_changed game_unmatched startRun_def)

section \<open>Migration\<close>

text \<open>
  C5: an existing event that is migrated should not be deleted. Game Aa, with notes that
  contain \<open>Hockey-UID:\<close>, and Game BB, both as the parser makes them, share their stable
  UID; the calendar holds Game Aa under the UID of the feed, which is the UID of no hockey
  event. \<open>processEventsWithStableUIDs\<close> finds the existing event by the content key of
  Game Aa and migrates it. The removal loop then reads from the description just written
  the text after the first \<open>Hockey-UID:\<close>, which is the UID of no hockey event, finds only
  Game BB among the values of \<open>hockeyEventMap\<close>, and deletes the event that it has just
  migrated.
\<close>

theorem migrated_event_deleted:
  "uid gameAaMarkedNotes = createStableUID gameAaMarkedNotes \<and>
   uid gameBB = createStableUID gameBB \<and>
   storedUID_stable legacyGameAa = Some ''8841@benchapp.com'' \<and>
   existingContentKey legacyGameAa = hockeyContentKey gameAaMarkedNotes \<and>
   processEventsWithStableUIDs [gameAaMarkedNotes, gameBB] [legacyGameAa]
     = (startRun [legacyGameAa])
         \<lparr>events := [createEvent gameAaMarkedNotes], added := 1, removed := 1, migrated := 1,
          requests := [Update 0 gameAaMarkedNotes, Create gameBB, Delete 0]\<rparr>"
  by (simp add: processEventsWithStableUIDs_eq addUpdateOrMigrate_cases mapGet_def
      game_maps game_uids game_keys game_stored game_unmatched startRun_def)

end
